theory Spec2Isabelle
  imports Main
begin

section \<open>Data model\<close>

text \<open>
  The orchestrator of \<^verbatim>\<open>src/main.js\<close> reads a list of endpoints from its configuration.
  Each endpoint has a \<^verbatim>\<open>url\<close> and an optional list of workflow entries; the code reads the
  list as \<^verbatim>\<open>endpoint.workflows || []\<close>, so an absent list is \<open>None\<close> here.
\<close>

record workflowConfig =
  workflow :: string
  port :: int

record endpoint =
  url :: string
  workflows :: "workflowConfig list option"

definition workflows_or_empty :: "endpoint \<Rightarrow> workflowConfig list" where
  \<comment> \<open>\<^verbatim>\<open>endpoint.workflows || []\<close>\<close>
  "workflows_or_empty ep = (case workflows ep of None \<Rightarrow> [] | Some ws \<Rightarrow> ws)"

section \<open>Index construction in setupFileWatchers\<close>

text \<open>
  \<^verbatim>\<open>workflowFiles\<close> is a JavaScript \<^verbatim>\<open>Set\<close>: it keeps insertion order and ignores a value
  it already holds. \<^verbatim>\<open>fileToEndpoints\<close> is a \<^verbatim>\<open>Map\<close> from file name to an array of urls.
\<close>

type_synonym reload_index = "string \<rightharpoonup> string list"

definition set_add :: "string list \<Rightarrow> string \<Rightarrow> string list" where
  "set_add files filename = (if filename \<in> set files then files else files @ [filename])"

definition map_push :: "reload_index \<Rightarrow> string \<Rightarrow> string \<Rightarrow> reload_index" where
  \<comment> \<open>lines 156 to 159: create the empty array when the key is new, then push the url\<close>
  "map_push m filename u =
     (let m' = (if m filename = None then m(filename \<mapsto> []) else m)
      in case m' filename of
           None \<Rightarrow> m'
         | Some us \<Rightarrow> m'(filename \<mapsto> us @ [u]))"

fun collect_workflows ::
  "string \<Rightarrow> workflowConfig list \<Rightarrow> string list \<times> reload_index \<Rightarrow> string list \<times> reload_index"
where
  "collect_workflows u [] acc = acc"
| "collect_workflows u (workflowConfig # rest) (workflowFiles, fileToEndpoints) =
     (let filename = workflow workflowConfig
      in collect_workflows u rest
           (set_add workflowFiles filename, map_push fileToEndpoints filename u))"

fun collect_endpoints ::
  "endpoint list \<Rightarrow> string list \<times> reload_index \<Rightarrow> string list \<times> reload_index"
where
  "collect_endpoints [] acc = acc"
| "collect_endpoints (ep # rest) acc =
     collect_endpoints rest (collect_workflows (url ep) (workflows_or_empty ep) acc)"

definition build_index :: "endpoint list \<Rightarrow> reload_index" where
  "build_index eps = snd (collect_endpoints eps ([], Map.empty))"

definition watched_files :: "endpoint list \<Rightarrow> string list" where
  "watched_files eps = fst (collect_endpoints eps ([], Map.empty))"

record watcher =
  watched :: "string list"
  fileToEndpoints :: reload_index

definition setupFileWatchers :: "endpoint list \<Rightarrow> watcher option" where
  \<comment> \<open>returns \<^verbatim>\<open>null\<close> when there is no workflow file, a chokidar watcher otherwise\<close>
  "setupFileWatchers eps =
     (if length (watched_files eps) = 0 then None
      else Some \<lparr>watched = watched_files eps, fileToEndpoints = build_index eps\<rparr>)"

definition referencing :: "endpoint list \<Rightarrow> string \<Rightarrow> string list" where
  \<comment> \<open>the urls of the (endpoint, workflow) pairs naming a file, in configuration order\<close>
  "referencing eps filename =
     concat (map (\<lambda>ep. concat (map (\<lambda>wc. if workflow wc = filename then [url ep] else [])
                                     (workflows_or_empty ep))) eps)"

definition endpointA :: endpoint where
  "endpointA = \<lparr>url = ''endpointA'', workflows = Some [\<lparr>workflow = ''fileX'', port = 8001\<rparr>]\<rparr>"

definition endpointB :: endpoint where
  "endpointB = \<lparr>url = ''endpointB'',
     workflows = Some [\<lparr>workflow = ''fileX'', port = 8002\<rparr>, \<lparr>workflow = ''fileY'', port = 8003\<rparr>]\<rparr>"

definition pending_urls :: "reload_index \<Rightarrow> string \<Rightarrow> string list" where
  \<comment> \<open>\<^verbatim>\<open>fileToEndpoints.get(filename) || []\<close>\<close>
  "pending_urls m f = (case m f of None \<Rightarrow> [] | Some us \<Rightarrow> us)"

definition index_ok :: "reload_index \<Rightarrow> bool" where
  \<comment> \<open>no key of the map holds an empty array\<close>
  "index_ok m = (\<forall>f. m f \<noteq> Some [])"

section \<open>Workflow documents and the Workflow Loader\<close>

text \<open>
  A workflow document is whatever \<^verbatim>\<open>JSON.parse\<close> returns. The program never looks inside
  it; it only tests it for truthiness and passes it on. Numbers are kept to the integers:
  the only thing the program asks of a number is whether it is zero.
\<close>

datatype jsval =
    JNull
  | JBool bool
  | JNum int
  | JStr string
  | JArr "jsval list"
  | JObj "(string \<times> jsval) list"

fun truthy :: "jsval \<Rightarrow> bool" where
  \<comment> \<open>JavaScript's ToBoolean, as applied by \<^verbatim>\<open>if (workflowData)\<close>\<close>
  "truthy JNull = False"
| "truthy (JBool b) = b"
| "truthy (JNum n) = (n \<noteq> 0)"
| "truthy (JStr s) = (s \<noteq> [])"
| "truthy (JArr xs) = True"
| "truthy (JObj kvs) = True"

datatype error =
    IOError
  | SyntaxError
  | NetworkError
  | HttpError nat
  | BodyError
  | OtherError string

text \<open>
  What reading and parsing a file gives: \<^verbatim>\<open>fs.readFileSync\<close> raises on a file it cannot
  read, \<^verbatim>\<open>JSON.parse\<close> raises on text that is not JSON, and otherwise there is a value.
\<close>

datatype file_state = Missing | Malformed | Document jsval

type_synonym filesystem = "string \<Rightarrow> file_state"

definition load_try :: "filesystem \<Rightarrow> string \<Rightarrow> error + jsval" where
  \<comment> \<open>the body of the \<^verbatim>\<open>try\<close> block of loadWorkflowFile\<close>
  "load_try fs filename =
     (case fs filename of
        Missing \<Rightarrow> Inl IOError
      | Malformed \<Rightarrow> Inl SyntaxError
      | Document v \<Rightarrow> Inr v)"

definition loadWorkflowFile :: "filesystem \<Rightarrow> string \<Rightarrow> jsval" where
  \<comment> \<open>the \<^verbatim>\<open>catch\<close> clause logs and returns \<^verbatim>\<open>null\<close>\<close>
  "loadWorkflowFile fs filename =
     (case load_try fs filename of Inl e \<Rightarrow> JNull | Inr v \<Rightarrow> v)"

section \<open>The Endpoint Client\<close>

record request =
  target :: string
  verb :: string
  headers :: "(string \<times> string) list"
  body :: "jsval option"

text \<open>
  \<^verbatim>\<open>fetch\<close> either rejects, or resolves with a response that has a status; reading the
  text of the response is a second step that can reject on its own (\<open>None\<close>).
\<close>

datatype fetch_outcome = Rejected | Resolved nat "string option"

type_synonym network = "request \<Rightarrow> fetch_outcome"

definition response_ok :: "nat \<Rightarrow> bool" where
  \<comment> \<open>\<^verbatim>\<open>response.ok\<close>: the status is in the range 200 to 299\<close>
  "response_ok st = (200 \<le> st \<and> st \<le> 299)"

definition checked_response :: "fetch_outcome \<Rightarrow> error + bool" where
  \<comment> \<open>the \<^verbatim>\<open>try\<close> block from the \<^verbatim>\<open>await fetch\<close> on, the same in both client functions:
      a status that is not ok is thrown, then the text of the response is awaited\<close>
  "checked_response out =
     (case out of
        Rejected \<Rightarrow> Inl NetworkError
      | Resolved st txt \<Rightarrow>
          if \<not> response_ok st then Inl (HttpError st)
          else (case txt of None \<Rightarrow> Inl BodyError | Some t \<Rightarrow> Inr True))"

definition caught :: "error + bool \<Rightarrow> bool" where
  \<comment> \<open>\<^verbatim>\<open>catch (error) { log(...); return false; }\<close>\<close>
  "caught r = (case r of Inl e \<Rightarrow> False | Inr b \<Rightarrow> b)"

definition digit_char :: "nat \<Rightarrow> char" where
  "digit_char d = ''0123456789'' ! d"

fun nat_digits :: "nat \<Rightarrow> string" where
  "nat_digits n =
     (if n < 10 then [digit_char n] else nat_digits (n div 10) @ [digit_char (n mod 10)])"

definition safe_integer :: "int \<Rightarrow> bool" where
  \<comment> \<open>\<^verbatim>\<open>Number.isSafeInteger\<close>: the integers a JavaScript number holds exactly, of magnitude
      at most \<open>2^53 - 1\<close>\<close>
  "safe_integer p = (\<bar>p\<bar> \<le> 9007199254740991)"

definition number_toString :: "int \<Rightarrow> string" where
  \<comment> \<open>\<^verbatim>\<open>port.toString()\<close> on a safe integer: its decimal digits, with a sign when negative.
      Beyond the safe integers JavaScript prints the shortest digits that round-trip, and an
      exponent from \<open>10^21\<close> on; what is stated about the port string is stated for safe
      integers only\<close>
  "number_toString p = (if p < 0 then CHR ''-'' # nat_digits (nat (- p)) else nat_digits (nat p))"

definition digit_value :: "char \<Rightarrow> nat" where
  "digit_value c = of_char c - 48"

definition decimal_value :: "string \<Rightarrow> nat" where
  "decimal_value s = foldl (\<lambda>a c. 10 * a + digit_value c) 0 s"

definition terminate_request :: "string \<Rightarrow> request" where
  "terminate_request u =
     \<lparr>target = ''http://'' @ u @ ''/api/bentoml/serve/terminate'',
      verb = ''POST'',
      headers = [(''Content-Type'', ''application/json'')],
      body = None\<rparr>"

definition execute_request :: "string \<Rightarrow> int \<Rightarrow> jsval \<Rightarrow> request" where
  \<comment> \<open>the body is the text \<^verbatim>\<open>JSON.stringify\<close> makes of the payload; the value is kept here\<close>
  "execute_request u p workflowData =
     (let payload = JObj [(''parallel'', JBool True),
                          (''host'', JStr ''0.0.0.0''),
                          (''port'', JStr (number_toString p)),
                          (''workflow_api'', workflowData)]
      in \<lparr>target = ''http://'' @ u @ ''/api/bentoml/serve'',
          verb = ''POST'',
          headers = [(''Content-Type'', ''application/json'')],
          body = Some payload\<rparr>)"

text \<open>
  What the program does to the outside is recorded as a list of events. An \<^verbatim>\<open>async\<close>
  function runs up to its first \<^verbatim>\<open>await\<close> when it is called: the request is sent at the
  call. It returns a promise, here the requests whose completion it waits for and the value
  it resolves to. Awaiting a promise records the point where the caller goes on, after
  those requests have all settled. Log lines are not events: nothing the program does
  depends on them.
\<close>

datatype event =
    ReadFile string
  | Fetch request
  | Settled "request list"

record 'a promise =
  awaited :: "request list"
  resolves_to :: 'a

definition await :: "'a promise \<Rightarrow> event list" where
  "await p = [Settled (awaited p)]"

definition promise_all :: "'a promise list \<Rightarrow> 'a list promise" where
  "promise_all ps = \<lparr>awaited = concat (map awaited ps), resolves_to = map resolves_to ps\<rparr>"

definition terminateEndpoint :: "network \<Rightarrow> string \<Rightarrow> event list \<times> bool promise" where
  "terminateEndpoint nw u =
     (let req = terminate_request u
      in ([Fetch req], \<lparr>awaited = [req], resolves_to = caught (checked_response (nw req))\<rparr>))"

definition executeWorkflow ::
  "network \<Rightarrow> string \<Rightarrow> int \<Rightarrow> jsval \<Rightarrow> event list \<times> bool promise"
where
  \<comment> \<open>the port is a number, as the configuration has it, so \<^verbatim>\<open>port.toString()\<close> returns\<close>
  "executeWorkflow nw u p workflowData =
     (let req = execute_request u p workflowData
      in ([Fetch req], \<lparr>awaited = [req], resolves_to = caught (checked_response (nw req))\<rparr>))"

section \<open>Orchestration\<close>

record world =
  endpoints :: "endpoint list"
  files :: filesystem
  net :: network

definition terminateAllEndpoints :: "world \<Rightarrow> event list" where
  "terminateAllEndpoints w =
     (let terminatePromises = map (\<lambda>ep. terminateEndpoint (net w) (url ep)) (endpoints w)
      in concat (map fst terminatePromises) @ await (promise_all (map snd terminatePromises)))"

fun execute_workflows :: "world \<Rightarrow> endpoint \<Rightarrow> workflowConfig list \<Rightarrow> event list" where
  \<comment> \<open>the inner loop of executeAllWorkflows: each execute is awaited before the next file is read\<close>
  "execute_workflows w ep [] = []"
| "execute_workflows w ep (workflowConfig # rest) =
     (let workflowData = loadWorkflowFile (files w) (workflow workflowConfig)
      in ReadFile (workflow workflowConfig) #
         (if truthy workflowData
          then (let (evs, p) = executeWorkflow (net w) (url ep) (port workflowConfig) workflowData
                in evs @ await p)
          else [])
         @ execute_workflows w ep rest)"

fun execute_endpoints :: "world \<Rightarrow> endpoint list \<Rightarrow> event list" where
  "execute_endpoints w [] = []"
| "execute_endpoints w (ep # rest) =
     execute_workflows w ep (workflows_or_empty ep) @ execute_endpoints w rest"

definition executeAllWorkflows :: "world \<Rightarrow> event list" where
  \<comment> \<open>\<^verbatim>\<open>workflowPromises\<close> stays empty here: the push is commented out in the source\<close>
  "executeAllWorkflows w =
     execute_endpoints w (endpoints w) @ await (promise_all ([] :: bool promise list))"

definition runOrchestration :: "world \<Rightarrow> event list" where
  "runOrchestration w = terminateAllEndpoints w @ executeAllWorkflows w"

fun push_workflows ::
  "world \<Rightarrow> endpoint \<Rightarrow> workflowConfig list \<Rightarrow> event list \<times> bool promise list
     \<Rightarrow> event list \<times> bool promise list"
where
  \<comment> \<open>the loop of executeWorkflowsForEndpoint: the promises are collected, not awaited\<close>
  "push_workflows w ep [] acc = acc"
| "push_workflows w ep (workflowConfig # rest) (evs, workflowPromises) =
     (let workflowData = loadWorkflowFile (files w) (workflow workflowConfig)
      in if truthy workflowData
         then (let (e, p) = executeWorkflow (net w) (url ep) (port workflowConfig) workflowData
               in push_workflows w ep rest
                    (evs @ ReadFile (workflow workflowConfig) # e, workflowPromises @ [p]))
         else push_workflows w ep rest
                (evs @ [ReadFile (workflow workflowConfig)], workflowPromises))"

definition executeWorkflowsForEndpoint :: "world \<Rightarrow> string \<Rightarrow> event list \<times> (error + unit)" where
  "executeWorkflowsForEndpoint w endpointUrl =
     (case find (\<lambda>ep. url ep = endpointUrl) (endpoints w) of
        None \<Rightarrow> ([], Inr ())
      | Some ep \<Rightarrow>
          (let (tev, tp) = terminateEndpoint (net w) (url ep);
               (xev, workflowPromises) = push_workflows w ep (workflows_or_empty ep) ([], [])
           in (tev @ await tp @ xev @ await (promise_all workflowPromises), Inr ())))"

section \<open>The change handler\<close>

text \<open>
  The handler runs the reload of each affected endpoint inside \<^verbatim>\<open>try\<close>/\<open>catch\<close>. The reload
  is a parameter of the loop, so that the loop can be studied for a reload that raises:
  a reload gives the events it produced and either returns or raises.
\<close>

fun reload_affected :: "(string \<Rightarrow> event list \<times> (error + unit)) \<Rightarrow> string list \<Rightarrow> event list" where
  "reload_affected run [] = []"
| "reload_affected run (endpointUrl # rest) =
     (case run endpointUrl of
        (evs, Inr done) \<Rightarrow> evs @ reload_affected run rest
      | (evs, Inl e) \<Rightarrow> evs @ reload_affected run rest)"

definition change_handler ::
  "(string \<Rightarrow> event list \<times> (error + unit)) \<Rightarrow> reload_index \<Rightarrow> string \<Rightarrow> event list"
where
  "change_handler run idx filename = reload_affected run (pending_urls idx filename)"

definition on_change :: "world \<Rightarrow> reload_index \<Rightarrow> string \<Rightarrow> event list" where
  "on_change w idx filename = change_handler (executeWorkflowsForEndpoint w) idx filename"

definition fetches :: "event list \<Rightarrow> request list" where
  \<comment> \<open>the network calls of a trace, in the order they were issued\<close>
  "fetches evs = concat (map (\<lambda>e. case e of Fetch r \<Rightarrow> [r] | _ \<Rightarrow> []) evs)"

section \<open>What a run does, stated over the configuration\<close>

text \<open>
  The definitions of this section do not come from the code: they describe, with \<open>map\<close> and
  \<open>concat\<close> over the configuration, the events that the loops above are proved to produce.
\<close>

definition loaded :: "world \<Rightarrow> workflowConfig \<Rightarrow> jsval" where
  "loaded w wc = loadWorkflowFile (files w) (workflow wc)"

definition bulk_events :: "world \<Rightarrow> string \<Rightarrow> workflowConfig list \<Rightarrow> event list" where
  \<comment> \<open>bulk pass: each file is read, and a truthy document is executed and awaited at once\<close>
  "bulk_events w u wcs =
     concat (map (\<lambda>wc. ReadFile (workflow wc) #
                    (if truthy (loaded w wc)
                     then [Fetch (execute_request u (port wc) (loaded w wc)),
                           Settled [execute_request u (port wc) (loaded w wc)]]
                     else []))
                 wcs)"

definition reload_events :: "world \<Rightarrow> string \<Rightarrow> workflowConfig list \<Rightarrow> event list" where
  \<comment> \<open>reload: each file is read, and the execute of a truthy document is issued, not awaited\<close>
  "reload_events w u wcs =
     concat (map (\<lambda>wc. ReadFile (workflow wc) #
                    (if truthy (loaded w wc)
                     then [Fetch (execute_request u (port wc) (loaded w wc))]
                     else []))
                 wcs)"

definition reload_requests :: "world \<Rightarrow> string \<Rightarrow> workflowConfig list \<Rightarrow> request list" where
  "reload_requests w u wcs =
     concat (map (\<lambda>wc. if truthy (loaded w wc)
                        then [execute_request u (port wc) (loaded w wc)] else [])
                 wcs)"

definition reload_trace :: "world \<Rightarrow> string \<Rightarrow> event list" where
  "reload_trace w u =
     (case find (\<lambda>ep. url ep = u) (endpoints w) of
        None \<Rightarrow> []
      | Some ep \<Rightarrow>
          [Fetch (terminate_request u), Settled [terminate_request u]]
          @ reload_events w u (workflows_or_empty ep)
          @ [Settled (reload_requests w u (workflows_or_empty ep))])"

definition terminate_requests :: "world \<Rightarrow> request list" where
  "terminate_requests w = map (\<lambda>ep. terminate_request (url ep)) (endpoints w)"

definition execute_requests :: "world \<Rightarrow> request list" where
  "execute_requests w =
     concat (map (\<lambda>ep. reload_requests w (url ep) (workflows_or_empty ep)) (endpoints w))"

section \<open>The watch handle across configuration changes\<close>

text \<open>
  JavaScript runs one callback at a time, so the life of \<^verbatim>\<open>global.workflowWatcher\<close> is a
  sequence of two kinds of turns. A configuration change runs \<^verbatim>\<open>onConfigChanged\<close>: it
  closes the watcher the global refers to, if any, and starts a bulk pass. The completion of
  a bulk pass runs \<^verbatim>\<open>global.workflowWatcher = setupFileWatchers()\<close>, in \<^verbatim>\<open>initialize\<close> and
  in the \<^verbatim>\<open>then\<close> callback of \<^verbatim>\<open>onConfigChanged\<close> alike, on the configuration of that
  moment. Watchers are numbered in the order of their creation. \<^verbatim>\<open>initialize\<close> registers
  the listener before it awaits the first pass, so the first state has one pass in flight.
\<close>

record lifecycle =
  workflowWatcher :: "nat option"
  created :: nat
  close_calls :: "nat list"
  in_flight :: nat

datatype lifecycle_event = ConfigChanged | PassCompleted "endpoint list"

definition initialize :: lifecycle where
  "initialize = \<lparr>workflowWatcher = None, created = 0, close_calls = [], in_flight = 1\<rparr>"

definition onConfigChanged :: "lifecycle \<Rightarrow> lifecycle" where
  "onConfigChanged s =
     (let s' = (case workflowWatcher s of
                  None \<Rightarrow> s
                | Some wt \<Rightarrow> s\<lparr>close_calls := close_calls s @ [wt]\<rparr>)
      in s'\<lparr>in_flight := in_flight s' + 1\<rparr>)"

definition pass_completed :: "endpoint list \<Rightarrow> lifecycle \<Rightarrow> lifecycle" where
  "pass_completed eps s =
     (if in_flight s = 0 then s
      else (case setupFileWatchers eps of
              None \<Rightarrow> s\<lparr>workflowWatcher := None, in_flight := in_flight s - 1\<rparr>
            | Some wt \<Rightarrow> s\<lparr>workflowWatcher := Some (created s), created := created s + 1,
                            in_flight := in_flight s - 1\<rparr>))"

fun lifecycle_step :: "lifecycle \<Rightarrow> lifecycle_event \<Rightarrow> lifecycle" where
  "lifecycle_step s ConfigChanged = onConfigChanged s"
| "lifecycle_step s (PassCompleted eps) = pass_completed eps s"

definition active_watchers :: "lifecycle \<Rightarrow> nat list" where
  \<comment> \<open>the watchers created and never closed\<close>
  "active_watchers s = filter (\<lambda>i. i \<notin> set (close_calls s)) [0..<created s]"

definition overlapping_changes :: "lifecycle_event list" where
  \<comment> \<open>the first pass ends; two changes arrive, the second while the pass of the first is
      still in flight; then both passes end\<close>
  "overlapping_changes =
     [PassCompleted [endpointA], ConfigChanged, ConfigChanged,
      PassCompleted [endpointA], PassCompleted [endpointA]]"

text \<open>
  A sequence of turns is sequential when no configuration change arrives while a bulk pass
  is in flight.
\<close>

fun sequential :: "lifecycle \<Rightarrow> lifecycle_event list \<Rightarrow> bool" where
  "sequential s [] = True"
| "sequential s (ConfigChanged # es) = (in_flight s = 0 \<and> sequential (onConfigChanged s) es)"
| "sequential s (PassCompleted eps # es) = sequential (pass_completed eps s) es"

definition lifecycle_inv :: "lifecycle \<Rightarrow> bool" where
  \<comment> \<open>what sequential turns preserve: no watcher is closed twice, and the only active watcher
      is the one the global refers to, once the pass has ended\<close>
  "lifecycle_inv s =
     (in_flight s \<le> 1 \<and> distinct (close_calls s) \<and> (\<forall>i \<in> set (close_calls s). i < created s) \<and>
      active_watchers s =
        (if in_flight s = 0
         then (case workflowWatcher s of None \<Rightarrow> [] | Some wt \<Rightarrow> [wt])
         else []))"

section \<open>Example worlds\<close>

definition demo_world :: world where
  "demo_world = \<lparr>endpoints = [endpointA, endpointB],
                  files = (\<lambda>p. Document (JObj [])),
                  net = (\<lambda>r. Rejected)\<rparr>"

definition zero_world :: world where
  "zero_world = \<lparr>endpoints = [endpointA],
                  files = (\<lambda>p. Document (JNum 0)),
                  net = (\<lambda>r. Resolved 200 (Some []))\<rparr>"

definition bare_world :: world where
  "bare_world = \<lparr>endpoints = [endpointA, endpointB],
                  files = (\<lambda>p. Missing),
                  net = (\<lambda>r. Rejected)\<rparr>"

definition broken_world :: world where
  "broken_world = \<lparr>endpoints = [endpointB],
                    files = (\<lambda>p. if p = ''fileX'' then Malformed else Document (JObj [])),
                    net = (\<lambda>r. Resolved 200 (Some []))\<rparr>"

definition raising_reload :: "string \<Rightarrow> event list \<times> (error + unit)" where
  \<comment> \<open>a reload that raises for endpointA after it has sent the terminate request\<close>
  "raising_reload u =
     (if u = ''endpointA'' then ([Fetch (terminate_request u)], Inl (OtherError ''unexpected''))
      else executeWorkflowsForEndpoint demo_world u)"

declare nat_digits.simps [simp del]

section \<open>Properties of the index\<close>

lemma map_push_apply:
  "map_push m filename u f =
     (if f = filename then Some ((case m filename of None \<Rightarrow> [] | Some us \<Rightarrow> us) @ [u]) else m f)"
  by (simp add: map_push_def Let_def split: option.splits)

lemma index_ok_map_push: "index_ok m \<Longrightarrow> index_ok (map_push m filename u)"
  by (simp add: index_ok_def map_push_apply)

lemma pending_map_push:
  "pending_urls (map_push m filename u) f =
     pending_urls m f @ (if filename = f then [u] else [])"
  by (auto simp: pending_urls_def map_push_apply split: option.splits)

lemma collect_workflows_snd:
  "index_ok (snd acc) \<Longrightarrow>
   index_ok (snd (collect_workflows u wcs acc)) \<and>
   pending_urls (snd (collect_workflows u wcs acc)) f =
     pending_urls (snd acc) f @
       concat (map (\<lambda>wc. if workflow wc = f then [u] else []) wcs)"
proof (induction wcs arbitrary: acc)
  case Nil
  then show ?case by simp
next
  case (Cons wc wcs)
  obtain fs m where acc: "acc = (fs, m)" by (cases acc)
  with Cons.prems have "index_ok (map_push m (workflow wc) u)"
    by (simp add: index_ok_map_push)
  then show ?case
    using Cons.IH [of "(set_add fs (workflow wc), map_push m (workflow wc) u)"] acc
    by (simp add: Let_def pending_map_push)
qed

lemma collect_endpoints_snd:
  "index_ok (snd acc) \<Longrightarrow>
   index_ok (snd (collect_endpoints eps acc)) \<and>
   pending_urls (snd (collect_endpoints eps acc)) f =
     pending_urls (snd acc) f @ referencing eps f"
proof (induction eps arbitrary: acc)
  case Nil
  then show ?case by (simp add: referencing_def)
next
  case (Cons ep eps)
  let ?acc' = "collect_workflows (url ep) (workflows_or_empty ep) acc"
  from Cons.prems have a: "index_ok (snd ?acc')"
    and b: "pending_urls (snd ?acc') f =
              pending_urls (snd acc) f @
                concat (map (\<lambda>wc. if workflow wc = f then [url ep] else []) (workflows_or_empty ep))"
    using collect_workflows_snd [of acc "url ep" "workflows_or_empty ep" f] by simp_all
  from Cons.IH [OF a] b show ?case
    by (simp add: referencing_def)
qed

lemma build_index_lookup:
  "build_index eps f = (if referencing eps f = [] then None else Some (referencing eps f))"
proof -
  have ok: "index_ok (snd (([], Map.empty) :: string list \<times> reload_index))"
    by (simp add: index_ok_def)
  from collect_endpoints_snd [OF ok, of eps f]
  have a: "index_ok (build_index eps)"
    and b: "pending_urls (build_index eps) f = referencing eps f"
    by (simp_all add: build_index_def pending_urls_def)
  show ?thesis
  proof (cases "build_index eps f")
    case None
    with b show ?thesis by (simp add: pending_urls_def)
  next
    case (Some us)
    with a have "us \<noteq> []" by (auto simp: index_ok_def)
    with Some b show ?thesis by (simp add: pending_urls_def)
  qed
qed

lemma referencing_nonempty:
  "referencing eps f \<noteq> [] \<longleftrightarrow>
     (\<exists>ep \<in> set eps. \<exists>wc \<in> set (workflows_or_empty ep). workflow wc = f)"
  by (auto simp: referencing_def)

text \<open>
  Claim C1. For every configuration, the file-to-endpoints map built by
  \<^verbatim>\<open>setupFileWatchers\<close> has as keys exactly the workflow paths that some endpoint
  references, and maps each such path to the urls of the endpoints referencing it, one
  entry per (endpoint, workflow) pair, in configuration order and without deduplication.
  From endpointA with fileX and endpointB with fileX and fileY it yields
  fileX to [endpointA, endpointB] and fileY to [endpointB].
\<close>

theorem build_index_spec:
  "dom (build_index eps) =
     {workflow wc | ep wc. ep \<in> set eps \<and> wc \<in> set (workflows_or_empty ep)}
   \<and> build_index eps f =
       (if referencing eps f = [] then None else Some (referencing eps f))
   \<and> build_index [endpointA, endpointB] ''fileX'' = Some [''endpointA'', ''endpointB'']
   \<and> build_index [endpointA, endpointB] ''fileY'' = Some [''endpointB'']
   \<and> dom (build_index [endpointA, endpointB]) = {''fileX'', ''fileY''}"
proof -
  have d: "dom (build_index eps) =
     {workflow wc | ep wc. ep \<in> set eps \<and> wc \<in> set (workflows_or_empty ep)}" for eps
  proof -
    have "f \<in> dom (build_index eps) \<longleftrightarrow>
          (\<exists>ep \<in> set eps. \<exists>wc \<in> set (workflows_or_empty ep). workflow wc = f)" for f
      using referencing_nonempty [of eps f] by (auto simp add: build_index_lookup dom_def)
    then show ?thesis by (auto simp: set_eq_iff)
  qed
  have x: "build_index [endpointA, endpointB] ''fileX'' = Some [''endpointA'', ''endpointB'']"
    by (simp add: build_index_lookup referencing_def endpointA_def endpointB_def
        workflows_or_empty_def)
  have y: "build_index [endpointA, endpointB] ''fileY'' = Some [''endpointB'']"
    by (simp add: build_index_lookup referencing_def endpointA_def endpointB_def
        workflows_or_empty_def)
  have k: "dom (build_index [endpointA, endpointB]) = {''fileX'', ''fileY''}"
    by (auto simp: dom_def build_index_lookup referencing_def endpointA_def endpointB_def
        workflows_or_empty_def split: if_splits)
  from d [of eps] build_index_lookup [of eps f] x y k show ?thesis by blast
qed

theorem build_index_spec_witness:
  "build_index [endpointB, endpointA, endpointB] ''fileX''
     = Some [''endpointB'', ''endpointA'', ''endpointB'']
   \<and> build_index [endpointB, endpointA, endpointB] ''fileZ'' = None"
  using build_index_spec [of "[endpointB, endpointA, endpointB]" "''fileX''"]
        build_index_spec [of "[endpointB, endpointA, endpointB]" "''fileZ''"]
  by (simp add: referencing_def endpointA_def endpointB_def workflows_or_empty_def)

section \<open>The events of the loops\<close>

lemma find_url: "find (\<lambda>ep. url ep = u) eps = Some ep \<Longrightarrow> url ep = u"
  by (induction eps) (auto split: if_splits)

lemma fetches_append [simp]: "fetches (xs @ ys) = fetches xs @ fetches ys"
  by (simp add: fetches_def)

lemma fetches_Cons [simp]:
  "fetches (Fetch r # xs) = r # fetches xs"
  "fetches (ReadFile p # xs) = fetches xs"
  "fetches (Settled rs # xs) = fetches xs"
  "fetches [] = []"
  by (simp_all add: fetches_def)

lemma fetches_map_Fetch [simp]: "fetches (map Fetch rs) = rs"
  by (induction rs) simp_all

lemma fetches_map_ReadFile [simp]: "fetches (map ReadFile ps) = []"
  by (induction ps) simp_all

lemma execute_workflows_events:
  "execute_workflows w ep wcs = bulk_events w (url ep) wcs"
  by (induction wcs) (simp_all add: bulk_events_def loaded_def executeWorkflow_def await_def Let_def)

lemma push_workflows_acc:
  "push_workflows w ep wcs (evs, ps) =
     (evs @ reload_events w (url ep) wcs,
      ps @ map (\<lambda>r. \<lparr>awaited = [r], resolves_to = caught (checked_response (net w r))\<rparr>)
             (reload_requests w (url ep) wcs))"
proof (induction wcs arbitrary: evs ps)
  case Nil
  then show ?case by (simp add: reload_events_def reload_requests_def)
next
  case (Cons wc wcs)
  show ?case
    by (simp add: Cons.IH reload_events_def reload_requests_def loaded_def executeWorkflow_def Let_def)
qed

lemma push_workflows_start:
  "push_workflows w ep wcs ([], []) =
     (reload_events w (url ep) wcs,
      map (\<lambda>r. \<lparr>awaited = [r], resolves_to = caught (checked_response (net w r))\<rparr>)
          (reload_requests w (url ep) wcs))"
  using push_workflows_acc [of w ep wcs "[]" "[]"] by simp

lemma awaited_promise_all_singletons:
  "awaited (promise_all (map (\<lambda>r. \<lparr>awaited = [r], resolves_to = f r\<rparr>) rs)) = rs"
  by (induction rs) (simp_all add: promise_all_def)

lemma executeWorkflowsForEndpoint_trace:
  "executeWorkflowsForEndpoint w u = (reload_trace w u, Inr ())"
proof (cases "find (\<lambda>ep. url ep = u) (endpoints w)")
  case None
  then show ?thesis by (simp add: executeWorkflowsForEndpoint_def reload_trace_def)
next
  case (Some ep)
  then have u: "url ep = u" by (rule find_url)
  show ?thesis
    using Some u
    by (simp add: executeWorkflowsForEndpoint_def reload_trace_def terminateEndpoint_def
        push_workflows_acc [of w ep _ "[]" "[]", simplified] await_def Let_def
        awaited_promise_all_singletons)
qed

lemma reload_affected_concat:
  "reload_affected run us = concat (map (\<lambda>u. fst (run u)) us)"
  by (induction us) (auto split: prod.splits sum.splits)

lemma on_change_trace:
  "on_change w idx filename = concat (map (reload_trace w) (pending_urls idx filename))"
  by (simp add: on_change_def change_handler_def reload_affected_concat
      executeWorkflowsForEndpoint_trace)

lemma terminateAllEndpoints_trace:
  "terminateAllEndpoints w = map Fetch (terminate_requests w) @ [Settled (terminate_requests w)]"
proof -
  have a: "concat (map fst (map (\<lambda>ep. terminateEndpoint nw (url ep)) eps)) =
        map Fetch (map (\<lambda>ep. terminate_request (url ep)) eps)" for nw eps
    by (induction eps) (simp_all add: terminateEndpoint_def Let_def)
  have b: "awaited (promise_all (map snd (map (\<lambda>ep. terminateEndpoint nw (url ep)) eps))) =
        map (\<lambda>ep. terminate_request (url ep)) eps" for nw eps
    by (induction eps) (simp_all add: terminateEndpoint_def Let_def promise_all_def)
  show ?thesis
    unfolding terminateAllEndpoints_def Let_def await_def terminate_requests_def
    by (simp only: a b map_map [symmetric])
qed

lemma execute_endpoints_trace:
  "execute_endpoints w eps =
     concat (map (\<lambda>ep. bulk_events w (url ep) (workflows_or_empty ep)) eps)"
  by (induction eps) (simp_all add: execute_workflows_events)

lemma executeAllWorkflows_trace:
  "executeAllWorkflows w =
     concat (map (\<lambda>ep. bulk_events w (url ep) (workflows_or_empty ep)) (endpoints w))
     @ [Settled []]"
  by (simp add: executeAllWorkflows_def execute_endpoints_trace await_def promise_all_def)

lemma fetches_bulk_events: "fetches (bulk_events w u wcs) = reload_requests w u wcs"
  by (induction wcs) (simp_all add: bulk_events_def reload_requests_def)

lemma fetches_reload_events: "fetches (reload_events w u wcs) = reload_requests w u wcs"
  by (induction wcs) (simp_all add: reload_events_def reload_requests_def)

lemma fetches_executeAllWorkflows: "fetches (executeAllWorkflows w) = execute_requests w"
proof -
  have "fetches (concat (map (\<lambda>ep. bulk_events w (url ep) (workflows_or_empty ep)) eps)) =
        concat (map (\<lambda>ep. reload_requests w (url ep) (workflows_or_empty ep)) eps)" for eps
    by (induction eps) (simp_all add: fetches_bulk_events)
  then show ?thesis
    by (simp add: executeAllWorkflows_trace execute_requests_def)
qed

lemma body_reload_requests: "r \<in> set (reload_requests w u wcs) \<Longrightarrow> body r \<noteq> None"
  by (auto simp: reload_requests_def execute_request_def Let_def split: if_splits)

lemma body_execute_requests: "r \<in> set (execute_requests w) \<Longrightarrow> body r \<noteq> None"
  by (auto simp: execute_requests_def dest: body_reload_requests)

lemma body_terminate_request: "body (terminate_request u) = None"
  by (simp add: terminate_request_def)

lemma not_loaded_falsy:
  "\<forall>v. files w (workflow wc) \<noteq> Document v \<Longrightarrow> \<not> truthy (loaded w wc)"
  by (auto simp: loaded_def loadWorkflowFile_def load_try_def split: file_state.splits)

lemma bulk_events_nothing_loads:
  "\<forall>wc \<in> set wcs. \<forall>v. files w (workflow wc) \<noteq> Document v \<Longrightarrow>
   bulk_events w u wcs = map ReadFile (map workflow wcs)"
  by (induction wcs) (simp_all add: bulk_events_def not_loaded_falsy)

lemma bulk_all_nothing_loads:
  "\<forall>ep \<in> set eps. \<forall>wc \<in> set (workflows_or_empty ep). \<forall>v. files w (workflow wc) \<noteq> Document v \<Longrightarrow>
   concat (map (\<lambda>ep. bulk_events w (url ep) (workflows_or_empty ep)) eps) =
     map ReadFile (concat (map (\<lambda>ep. map workflow (workflows_or_empty ep)) eps))"
  by (induction eps) (simp_all add: bulk_events_nothing_loads)

lemma loaded_net [simp]: "loaded (w\<lparr>net := n\<rparr>) wc = loaded w wc"
  by (simp add: loaded_def)

lemma bulk_events_net [simp]: "bulk_events (w\<lparr>net := n\<rparr>) u wcs = bulk_events w u wcs"
  by (simp add: bulk_events_def cong: if_cong)

lemma reload_requests_net [simp]: "reload_requests (w\<lparr>net := n\<rparr>) u wcs = reload_requests w u wcs"
  by (simp add: reload_requests_def cong: if_cong)

lemma bulk_events_append:
  "bulk_events w u (xs @ ys) = bulk_events w u xs @ bulk_events w u ys"
  by (simp add: bulk_events_def)

lemma reload_events_append:
  "reload_events w u (xs @ ys) = reload_events w u xs @ reload_events w u ys"
  by (simp add: reload_events_def)

lemma reload_requests_append:
  "reload_requests w u (xs @ ys) = reload_requests w u xs @ reload_requests w u ys"
  by (simp add: reload_requests_def)

lemma bulk_events_falsy:
  "\<not> truthy (loaded w wc) \<Longrightarrow> bulk_events w u (wc # ys) = ReadFile (workflow wc) # bulk_events w u ys"
  by (simp add: bulk_events_def)

lemma reload_events_falsy:
  "\<not> truthy (loaded w wc) \<Longrightarrow> reload_events w u (wc # ys) = ReadFile (workflow wc) # reload_events w u ys"
  by (simp add: reload_events_def)

lemma reload_requests_falsy:
  "\<not> truthy (loaded w wc) \<Longrightarrow> reload_requests w u (wc # ys) = reload_requests w u ys"
  by (simp add: reload_requests_def)

lemma falsy_values: "v \<in> {JBool False, JNum 0, JNull, JStr ''''} \<Longrightarrow> \<not> truthy v"
  by auto

lemma loaded_without_falsy_file:
  assumes "files w p = Document v" and "\<not> truthy v"
  shows "truthy (loaded (w\<lparr>files := (files w)(p := Missing)\<rparr>) wc) = truthy (loaded w wc)"
    and "truthy (loaded w wc) \<Longrightarrow> loaded (w\<lparr>files := (files w)(p := Missing)\<rparr>) wc = loaded w wc"
  using assms by (auto simp: loaded_def loadWorkflowFile_def load_try_def split: file_state.splits)

lemma events_without_falsy_file:
  assumes "files w p = Document v" and "\<not> truthy v"
  shows "bulk_events (w\<lparr>files := (files w)(p := Missing)\<rparr>) u wcs = bulk_events w u wcs"
    and "reload_events (w\<lparr>files := (files w)(p := Missing)\<rparr>) u wcs = reload_events w u wcs"
    and "reload_requests (w\<lparr>files := (files w)(p := Missing)\<rparr>) u wcs = reload_requests w u wcs"
  using loaded_without_falsy_file [OF assms]
  by (induction wcs) (simp_all add: bulk_events_def reload_events_def reload_requests_def)

lemma digit_value_digit_char: "d < 10 \<Longrightarrow> digit_value (digit_char d) = d"
proof -
  assume "d < 10"
  then have "d \<in> {0,1,2,3,4,5,6,7,8,9}" by auto
  then show ?thesis
    by (auto simp: digit_value_def digit_char_def)
qed

lemma decimal_value_snoc:
  "decimal_value (s @ [c]) = 10 * decimal_value s + digit_value c"
  by (simp add: decimal_value_def)

lemma decimal_value_nat_digits: "decimal_value (nat_digits n) = n"
proof (induction n rule: nat_digits.induct)
  case (1 n)
  show ?case
  proof (cases "n < 10")
    case True
    then show ?thesis
      by (subst nat_digits.simps) (simp add: decimal_value_def digit_value_digit_char)
  next
    case False
    with 1 have "decimal_value (nat_digits (n div 10)) = n div 10" by simp
    with False show ?thesis
      by (subst nat_digits.simps) (simp add: decimal_value_snoc digit_value_digit_char)
  qed
qed

lemma nat_digits_8188: "nat_digits 8188 = ''8188''"
  by (simp add: nat_digits.simps digit_char_def)

lemma setup_A: "setupFileWatchers [endpointA] \<noteq> None"
  by (simp add: setupFileWatchers_def watched_files_def endpointA_def workflows_or_empty_def set_add_def Let_def)

lemma setup_A_some: "\<exists>wt. setupFileWatchers [endpointA] = Some wt"
  using setup_A by auto

lemma pass_completed_A:
  "in_flight s \<noteq> 0 \<Longrightarrow> pass_completed [endpointA] s =
     s\<lparr>workflowWatcher := Some (created s), created := created s + 1,
       in_flight := in_flight s - 1\<rparr>"
  using setup_A_some by (auto simp: pass_completed_def)

section \<open>The claims about requests, reloads and the bulk pass\<close>

text \<open>
  Claim C2, as amended. For a change event whose path is a key of the index, the handler
  goes through the urls recorded for that path, in order and one after the other. For a url
  that the current configuration no longer holds, nothing is done. Otherwise the terminate
  request is sent and awaited, whatever it resolves to; then, for every workflow of the
  first configured endpoint with that url, in order, the file is read and, when the
  document read is truthy, its execute request is sent without being awaited; the executes
  sent are all awaited together before the next url is taken.
\<close>

theorem on_change_reload:
  "idx filename = Some us \<Longrightarrow>
   on_change w idx filename =
     concat (map (\<lambda>u. case find (\<lambda>ep. url ep = u) (endpoints w) of
                        None \<Rightarrow> []
                      | Some ep \<Rightarrow>
                          [Fetch (terminate_request u), Settled [terminate_request u]]
                          @ reload_events w u (workflows_or_empty ep)
                          @ [Settled (reload_requests w u (workflows_or_empty ep))]) us)"
proof -
  have "reload_trace w =
      (\<lambda>u. case find (\<lambda>ep. url ep = u) (endpoints w) of
                        None \<Rightarrow> []
                      | Some ep \<Rightarrow>
                          [Fetch (terminate_request u), Settled [terminate_request u]]
                          @ reload_events w u (workflows_or_empty ep)
                          @ [Settled (reload_requests w u (workflows_or_empty ep))])"
    by (rule ext) (simp add: reload_trace_def)
  then show "idx filename = Some us \<Longrightarrow> ?thesis"
    by (simp add: on_change_trace pending_urls_def)
qed

theorem on_change_reload_witness:
  "build_index (endpoints demo_world) ''fileX'' = Some [''endpointA'', ''endpointB'']
   \<and> on_change demo_world (build_index (endpoints demo_world)) ''fileX'' =
       [Fetch (terminate_request ''endpointA''), Settled [terminate_request ''endpointA''],
        ReadFile ''fileX'',
        Fetch (execute_request ''endpointA'' 8001 (JObj [])),
        Settled [execute_request ''endpointA'' 8001 (JObj [])],
        Fetch (terminate_request ''endpointB''), Settled [terminate_request ''endpointB''],
        ReadFile ''fileX'',
        Fetch (execute_request ''endpointB'' 8002 (JObj [])),
        ReadFile ''fileY'',
        Fetch (execute_request ''endpointB'' 8003 (JObj [])),
        Settled [execute_request ''endpointB'' 8002 (JObj []),
                 execute_request ''endpointB'' 8003 (JObj [])]]"
proof -
  have k: "build_index (endpoints demo_world) ''fileX'' = Some [''endpointA'', ''endpointB'']"
    by (simp add: build_index_lookup referencing_def demo_world_def endpointA_def endpointB_def
        workflows_or_empty_def)
  show ?thesis
    using on_change_reload [of "build_index (endpoints demo_world)" "''fileX''"
        "[''endpointA'', ''endpointB'']" demo_world] k
    by (simp add: demo_world_def endpointA_def endpointB_def workflows_or_empty_def
        reload_events_def reload_requests_def loaded_def loadWorkflowFile_def load_try_def)
qed

text \<open>
  Claim C2 as stated fails on a workflow file that holds the JSON number \<open>0\<close>: the file is
  read and parsed without error, and the handler still sends the terminate request only.
\<close>

theorem on_change_counterexample:
  "load_try (files zero_world) ''fileX'' = Inr (JNum 0)
   \<and> build_index (endpoints zero_world) ''fileX'' = Some [''endpointA'']
   \<and> on_change zero_world (build_index (endpoints zero_world)) ''fileX'' =
       [Fetch (terminate_request ''endpointA''), Settled [terminate_request ''endpointA''],
        ReadFile ''fileX'', Settled []]"
  by (simp add: on_change_trace pending_urls_def reload_trace_def build_index_lookup
      referencing_def zero_world_def endpointA_def workflows_or_empty_def load_try_def
      reload_events_def reload_requests_def loaded_def loadWorkflowFile_def)

text \<open>
  Claim C4, as amended. Neither client function raises: it resolves to \<open>True\<close> when its
  \<^verbatim>\<open>try\<close> block runs to the end, and whatever the block throws is turned into \<open>False\<close>.
  So each resolves to \<open>True\<close> exactly when \<^verbatim>\<open>fetch\<close> resolves with a status from 200 to
  299 and the text of the response is then read without error, and to \<open>False\<close> in every
  other case.
\<close>

theorem endpoint_client_result:
  "resolves_to (snd (terminateEndpoint nw u)) =
     (\<exists>st txt. nw (terminate_request u) = Resolved st (Some txt) \<and> 200 \<le> st \<and> st \<le> 299)
   \<and> resolves_to (snd (executeWorkflow nw u p workflowData)) =
     (\<exists>st txt. nw (execute_request u p workflowData) = Resolved st (Some txt)
        \<and> 200 \<le> st \<and> st \<le> 299)
   \<and> resolves_to (snd (terminateEndpoint nw u)) =
     (checked_response (nw (terminate_request u)) = Inr True)
   \<and> resolves_to (snd (executeWorkflow nw u p workflowData)) =
     (checked_response (nw (execute_request u p workflowData)) = Inr True)"
proof -
  have r: "caught (checked_response out) =
      (\<exists>st txt. out = Resolved st (Some txt) \<and> 200 \<le> st \<and> st \<le> 299)" for out
    by (cases out)
      (auto simp: caught_def checked_response_def response_ok_def split: option.splits)
  have c: "caught (checked_response out) = (checked_response out = Inr True)" for out
    by (cases out)
      (auto simp: caught_def checked_response_def response_ok_def split: option.splits)
  have t: "resolves_to (snd (terminateEndpoint nw u)) =
      caught (checked_response (nw (terminate_request u)))"
    by (simp add: terminateEndpoint_def Let_def)
  have x: "resolves_to (snd (executeWorkflow nw u p workflowData)) =
      caught (checked_response (nw (execute_request u p workflowData)))"
    by (simp add: executeWorkflow_def Let_def)
  show ?thesis
    unfolding t x by (intro conjI r c)
qed

theorem endpoint_client_result_witness:
  "resolves_to (snd (terminateEndpoint (\<lambda>r. Resolved 204 (Some [])) ''host'')) = True
   \<and> resolves_to (snd (executeWorkflow (\<lambda>r. Resolved 404 (Some [])) ''host'' 8188 (JObj [])))
       = False"
  using endpoint_client_result [of "\<lambda>r. Resolved 204 (Some [])" "''host''"]
        endpoint_client_result [of "\<lambda>r. Resolved 404 (Some [])" "''host''" 8188 "JObj []"]
  by simp

text \<open>
  Claim C4 as stated fails on a response with status 200 whose text cannot be read: the
  status is in the 2xx range and both client functions resolve to \<open>False\<close>.
\<close>

theorem endpoint_client_counterexample:
  "response_ok 200 \<and>
   resolves_to (snd (terminateEndpoint (\<lambda>r. Resolved 200 None) ''host'')) = False \<and>
   resolves_to (snd (executeWorkflow (\<lambda>r. Resolved 200 None) ''host'' 8188 (JObj []))) = False"
  by (simp add: terminateEndpoint_def executeWorkflow_def Let_def caught_def
      checked_response_def response_ok_def)

text \<open>
  Claim C5. For every url, every port that is a safe integer and every workflow document,
  \<^verbatim>\<open>executeWorkflow\<close> sends one POST to \<^verbatim>\<open>http://{url}/api/bentoml/serve\<close> with JSON content
  type, whose body has \<open>parallel\<close> true, \<open>host\<close> \<^verbatim>\<open>0.0.0.0\<close>, \<open>port\<close> the port as a decimal
  string and \<open>workflow_api\<close> the document as it was loaded. The port string reads back as
  the port when the port is not negative, and is a minus sign before the digits of the
  magnitude when it is.
\<close>

theorem execute_request_shape:
  assumes "safe_integer p"
  shows "fst (executeWorkflow nw u p workflowData) =
     [Fetch \<lparr>target = ''http://'' @ u @ ''/api/bentoml/serve'',
             verb = ''POST'',
             headers = [(''Content-Type'', ''application/json'')],
             body = Some (JObj [(''parallel'', JBool True),
                                (''host'', JStr ''0.0.0.0''),
                                (''port'', JStr (number_toString p)),
                                (''workflow_api'', workflowData)])\<rparr>]
   \<and> (0 \<le> p \<longrightarrow> decimal_value (number_toString p) = nat p)
   \<and> (p < 0 \<longrightarrow> number_toString p = CHR ''-'' # number_toString (- p))"
proof -
  have shape: "fst (executeWorkflow nw u p workflowData) =
     [Fetch \<lparr>target = ''http://'' @ u @ ''/api/bentoml/serve'',
             verb = ''POST'',
             headers = [(''Content-Type'', ''application/json'')],
             body = Some (JObj [(''parallel'', JBool True),
                                (''host'', JStr ''0.0.0.0''),
                                (''port'', JStr (number_toString p)),
                                (''workflow_api'', workflowData)])\<rparr>]"
    by (simp add: executeWorkflow_def execute_request_def Let_def)
  have value_back: "decimal_value (number_toString p) = nat p" if "0 \<le> p"
    using that by (simp add: number_toString_def decimal_value_nat_digits)
  have minus_sign: "number_toString p = CHR ''-'' # number_toString (- p)" if "p < 0"
    using that by (simp add: number_toString_def)
  from shape value_back minus_sign show ?thesis by blast
qed

theorem execute_request_shape_witness:
  "safe_integer 8188
   \<and> fst (executeWorkflow (\<lambda>r. Rejected) ''gpu1:3000'' 8188 (JObj [(''3'', JObj [])])) =
     [Fetch \<lparr>target = ''http://gpu1:3000/api/bentoml/serve'',
             verb = ''POST'',
             headers = [(''Content-Type'', ''application/json'')],
             body = Some (JObj [(''parallel'', JBool True),
                                (''host'', JStr ''0.0.0.0''),
                                (''port'', JStr ''8188''),
                                (''workflow_api'', JObj [(''3'', JObj [])])])\<rparr>]
   \<and> decimal_value ''8188'' = 8188"
proof -
  have safe: "safe_integer 8188"
    by (simp add: safe_integer_def)
  have digits: "number_toString 8188 = ''8188''"
    by (simp add: number_toString_def nat_digits_8188)
  from execute_request_shape [OF safe, where nw = "\<lambda>r. Rejected" and u = "''gpu1:3000''"
      and workflowData = "JObj [(''3'', JObj [])]"] safe digits
  show ?thesis by simp
qed

text \<open>
  Claim C6. \<^verbatim>\<open>loadWorkflowFile\<close> returns the parsed document when the file is read and
  parsed, and \<open>null\<close> when reading or parsing fails; it never raises. A workflow whose file
  fails to load contributes its read and nothing else, in the bulk pass and in a reload:
  the workflows before and after it are read and executed as they are without it.
\<close>

theorem load_failure_skips:
  "loadWorkflowFile fs p = (case fs p of Missing \<Rightarrow> JNull | Malformed \<Rightarrow> JNull | Document v \<Rightarrow> v)
   \<and> ((\<forall>v. files w (workflow wc) \<noteq> Document v) \<longrightarrow>
        execute_workflows w ep (xs @ wc # ys) =
          execute_workflows w ep xs @ [ReadFile (workflow wc)] @ execute_workflows w ep ys
      \<and> fst (push_workflows w ep (xs @ wc # ys) ([], [])) =
          fst (push_workflows w ep xs ([], [])) @ [ReadFile (workflow wc)]
          @ fst (push_workflows w ep ys ([], []))
      \<and> snd (push_workflows w ep (xs @ wc # ys) ([], [])) =
          snd (push_workflows w ep xs ([], [])) @ snd (push_workflows w ep ys ([], [])))"
proof -
  have a: "loadWorkflowFile fs p =
      (case fs p of Missing \<Rightarrow> JNull | Malformed \<Rightarrow> JNull | Document v \<Rightarrow> v)"
    by (simp add: loadWorkflowFile_def load_try_def split: file_state.splits)
  have b: "execute_workflows w ep (xs @ wc # ys) =
          execute_workflows w ep xs @ [ReadFile (workflow wc)] @ execute_workflows w ep ys
      \<and> fst (push_workflows w ep (xs @ wc # ys) ([], [])) =
          fst (push_workflows w ep xs ([], [])) @ [ReadFile (workflow wc)]
          @ fst (push_workflows w ep ys ([], []))
      \<and> snd (push_workflows w ep (xs @ wc # ys) ([], [])) =
          snd (push_workflows w ep xs ([], [])) @ snd (push_workflows w ep ys ([], []))"
    if "\<forall>v. files w (workflow wc) \<noteq> Document v"
  proof -
    from that have f: "\<not> truthy (loaded w wc)" by (rule not_loaded_falsy)
    show ?thesis
      by (simp add: execute_workflows_events push_workflows_start bulk_events_append
          reload_events_append reload_requests_append bulk_events_falsy [OF f]
          reload_events_falsy [OF f] reload_requests_falsy [OF f])
  qed
  from a b show ?thesis by blast
qed

theorem load_failure_skips_witness:
  "files broken_world (workflow \<lparr>workflow = ''fileX'', port = 8002\<rparr>) = Malformed
   \<and> execute_workflows broken_world endpointB
        ([] @ \<lparr>workflow = ''fileX'', port = 8002\<rparr> # [\<lparr>workflow = ''fileY'', port = 8003\<rparr>]) =
       [ReadFile ''fileX'', ReadFile ''fileY'',
        Fetch (execute_request ''endpointB'' 8003 (JObj [])),
        Settled [execute_request ''endpointB'' 8003 (JObj [])]]
   \<and> fst (push_workflows broken_world endpointB
        ([] @ \<lparr>workflow = ''fileX'', port = 8002\<rparr> # [\<lparr>workflow = ''fileY'', port = 8003\<rparr>])
        ([], [])) =
       [ReadFile ''fileX'', ReadFile ''fileY'',
        Fetch (execute_request ''endpointB'' 8003 (JObj []))]"
  using load_failure_skips [of "files broken_world" "''fileY''" broken_world
      "\<lparr>workflow = ''fileX'', port = 8002\<rparr>" endpointB "[]"
      "[\<lparr>workflow = ''fileY'', port = 8003\<rparr>]"]
  by (simp add: broken_world_def endpointB_def loadWorkflowFile_def load_try_def
      executeWorkflow_def await_def Let_def)

text \<open>
  Claim C7. Whatever the reload of an endpoint does, return or raise, the handler goes on
  with the remaining urls: its events are those of the reloads of all the affected urls, in
  order. For a path that is not a key of the index the handler does nothing at all.
\<close>

theorem change_handler_isolation:
  "change_handler run idx filename = concat (map (\<lambda>u. fst (run u)) (pending_urls idx filename))
   \<and> (idx filename = Some (us @ u # vs) \<longrightarrow>
        change_handler run idx filename =
          reload_affected run us @ fst (run u) @ reload_affected run vs)
   \<and> (idx filename = None \<longrightarrow> on_change w idx filename = [])"
proof -
  have all: "change_handler run idx filename =
      concat (map (\<lambda>u. fst (run u)) (pending_urls idx filename))" for run
    by (simp add: change_handler_def reload_affected_concat)
  have split: "change_handler run idx filename =
      reload_affected run us @ fst (run u) @ reload_affected run vs"
    if "idx filename = Some (us @ u # vs)"
    using that by (simp add: all pending_urls_def reload_affected_concat)
  have stale: "on_change w idx filename = []" if "idx filename = None"
    using that by (simp add: on_change_def all pending_urls_def)
  from all split stale show ?thesis by blast
qed

theorem change_handler_isolation_witness:
  "build_index (endpoints demo_world) ''fileX'' = Some ([] @ ''endpointA'' # [''endpointB''])
   \<and> snd (raising_reload ''endpointA'') = Inl (OtherError ''unexpected'')
   \<and> change_handler raising_reload (build_index (endpoints demo_world)) ''fileX'' =
       [Fetch (terminate_request ''endpointA'')]
       @ fst (executeWorkflowsForEndpoint demo_world ''endpointB'')
   \<and> build_index (endpoints demo_world) ''fileZ'' = None
   \<and> on_change demo_world (build_index (endpoints demo_world)) ''fileZ'' = []"
proof -
  have k1: "build_index (endpoints demo_world) ''fileX'' = Some ([] @ ''endpointA'' # [''endpointB''])"
    by (simp add: build_index_lookup referencing_def demo_world_def endpointA_def endpointB_def
        workflows_or_empty_def)
  have k2: "build_index (endpoints demo_world) ''fileZ'' = None"
    by (simp add: build_index_lookup referencing_def demo_world_def endpointA_def endpointB_def
        workflows_or_empty_def)
  have r: "raising_reload ''endpointA'' =
             ([Fetch (terminate_request ''endpointA'')], Inl (OtherError ''unexpected''))"
    and r': "raising_reload ''endpointB'' = executeWorkflowsForEndpoint demo_world ''endpointB''"
    by (simp_all add: raising_reload_def)
  from change_handler_isolation [of raising_reload "build_index (endpoints demo_world)" "''fileX''"
          "[]" "''endpointA''" "[''endpointB'']" demo_world] k1
  have a: "change_handler raising_reload (build_index (endpoints demo_world)) ''fileX'' =
       [Fetch (terminate_request ''endpointA'')]
       @ fst (executeWorkflowsForEndpoint demo_world ''endpointB'')"
    by (simp add: r r' reload_affected_concat pending_urls_def)
  from change_handler_isolation [of raising_reload "build_index (endpoints demo_world)" "''fileZ''"
          "[]" "''endpointA''" "[''endpointB'']" demo_world] k2
  have b: "on_change demo_world (build_index (endpoints demo_world)) ''fileZ'' = []"
    by simp
  from k1 k2 r a b show ?thesis by simp
qed

text \<open>
  Claim C8. The bulk pass sends one terminate request per configured endpoint, all of them
  before it waits for any, and waits for all of them before the execute phase starts; no
  terminate request is sent in the execute phase and no execute request before it. When
  none of the configured workflow files loads, the terminate requests are the only network
  calls of the pass.
\<close>

theorem bulk_pass_shape:
  "runOrchestration w =
     map Fetch (terminate_requests w) @ [Settled (terminate_requests w)] @ executeAllWorkflows w
   \<and> length (terminate_requests w) = length (endpoints w)
   \<and> (\<forall>u. terminate_request u \<notin> set (fetches (executeAllWorkflows w)))
   \<and> (\<forall>u p d. execute_request u p d \<notin> set (terminate_requests w))
   \<and> ((\<forall>ep \<in> set (endpoints w). \<forall>wc \<in> set (workflows_or_empty ep).
         \<forall>v. files w (workflow wc) \<noteq> Document v) \<longrightarrow>
        fetches (runOrchestration w) = terminate_requests w
        \<and> executeAllWorkflows w =
            map ReadFile (concat (map (\<lambda>ep. map workflow (workflows_or_empty ep)) (endpoints w)))
            @ [Settled []])"
proof -
  have a: "runOrchestration w =
     map Fetch (terminate_requests w) @ [Settled (terminate_requests w)] @ executeAllWorkflows w"
    by (simp add: runOrchestration_def terminateAllEndpoints_trace)
  have b: "length (terminate_requests w) = length (endpoints w)"
    by (simp add: terminate_requests_def)
  have c: "\<forall>u. terminate_request u \<notin> set (fetches (executeAllWorkflows w))"
  proof (intro allI notI)
    fix u
    assume "terminate_request u \<in> set (fetches (executeAllWorkflows w))"
    then have "body (terminate_request u) \<noteq> None"
      by (simp add: fetches_executeAllWorkflows body_execute_requests)
    then show False by (simp add: body_terminate_request)
  qed
  have d: "\<forall>u p d. execute_request u p d \<notin> set (terminate_requests w)"
    by (auto simp: terminate_requests_def terminate_request_def execute_request_def Let_def)
  have e: "executeAllWorkflows w =
            map ReadFile (concat (map (\<lambda>ep. map workflow (workflows_or_empty ep)) (endpoints w)))
            @ [Settled []]"
    if "\<forall>ep \<in> set (endpoints w). \<forall>wc \<in> set (workflows_or_empty ep).
         \<forall>v. files w (workflow wc) \<noteq> Document v"
    using that by (simp add: executeAllWorkflows_trace bulk_all_nothing_loads)
  have f: "fetches (runOrchestration w) = terminate_requests w"
    if "\<forall>ep \<in> set (endpoints w). \<forall>wc \<in> set (workflows_or_empty ep).
         \<forall>v. files w (workflow wc) \<noteq> Document v"
    using e [OF that] by (simp add: a)
  from a b c d e f show ?thesis by blast
qed

theorem bulk_pass_shape_witness:
  "files bare_world = (\<lambda>p. Missing)
   \<and> length (endpoints bare_world) = 2
   \<and> runOrchestration bare_world =
       [Fetch (terminate_request ''endpointA''), Fetch (terminate_request ''endpointB''),
        Settled [terminate_request ''endpointA'', terminate_request ''endpointB''],
        ReadFile ''fileX'', ReadFile ''fileX'', ReadFile ''fileY'', Settled []]
   \<and> fetches (runOrchestration bare_world) =
       [terminate_request ''endpointA'', terminate_request ''endpointB'']"
  using bulk_pass_shape [of bare_world]
  by (simp add: bare_world_def terminate_requests_def endpointA_def endpointB_def
      workflows_or_empty_def)

text \<open>
  Claim C9. The events of a bulk pass, and so its network calls with their urls, ports,
  payloads and order, are determined by the configuration and the contents of the workflow
  files: a second pass on the same configuration and files repeats the first, however the
  network answers either time.
\<close>

theorem bulk_pass_repeatable:
  "runOrchestration (w\<lparr>net := n2\<rparr>) = runOrchestration (w\<lparr>net := n1\<rparr>)
   \<and> fetches (runOrchestration (w\<lparr>net := n2\<rparr>)) = fetches (runOrchestration (w\<lparr>net := n1\<rparr>))
   \<and> fetches (runOrchestration w) = terminate_requests w @ execute_requests w"
proof -
  have a: "runOrchestration (w\<lparr>net := n\<rparr>) = runOrchestration w" for n
    by (simp add: runOrchestration_def terminateAllEndpoints_trace executeAllWorkflows_trace
        terminate_requests_def)
  have b: "fetches (runOrchestration w) = terminate_requests w @ execute_requests w"
    by (simp add: runOrchestration_def terminateAllEndpoints_trace fetches_executeAllWorkflows)
  from a [of n1] a [of n2] b show ?thesis by simp
qed

theorem bulk_pass_repeatable_witness:
  "fetches (runOrchestration (demo_world\<lparr>net := (\<lambda>r. Resolved 200 (Some []))\<rparr>)) =
   fetches (runOrchestration (demo_world\<lparr>net := (\<lambda>r. Rejected)\<rparr>))"
  using bulk_pass_repeatable [where w = demo_world and ?n2.0 = "\<lambda>r. Resolved 200 (Some [])"
      and ?n1.0 = "\<lambda>r. Rejected"]
  by simp

text \<open>
  Claim C10. A workflow file that parses to \<open>false\<close>, \<open>0\<close>, \<open>null\<close> or the empty string is
  skipped by the bulk pass and by a reload: both behave exactly as if the file were
  missing, and no execute request is sent for it.
\<close>

theorem falsy_document_skipped:
  assumes "files w p = Document v" and "v \<in> {JBool False, JNum 0, JNull, JStr ''''}"
  shows "executeAllWorkflows (w\<lparr>files := (files w)(p := Missing)\<rparr>) = executeAllWorkflows w
   \<and> executeWorkflowsForEndpoint (w\<lparr>files := (files w)(p := Missing)\<rparr>) u =
       executeWorkflowsForEndpoint w u
   \<and> execute_workflows w ep [\<lparr>workflow = p, port = q\<rparr>] = [ReadFile p]
   \<and> push_workflows w ep [\<lparr>workflow = p, port = q\<rparr>] (evs, ps) = (evs @ [ReadFile p], ps)"
proof -
  from assms(2) have f: "\<not> truthy v" by (rule falsy_values)
  note same = events_without_falsy_file [OF assms(1) f]
  have a: "executeAllWorkflows (w\<lparr>files := (files w)(p := Missing)\<rparr>) = executeAllWorkflows w"
    by (simp add: executeAllWorkflows_trace same)
  have b: "executeWorkflowsForEndpoint (w\<lparr>files := (files w)(p := Missing)\<rparr>) u =
       executeWorkflowsForEndpoint w u"
    by (simp add: executeWorkflowsForEndpoint_trace reload_trace_def same split: option.splits)
  from assms(1) f have l: "\<not> truthy (loadWorkflowFile (files w) p)"
    by (simp add: loadWorkflowFile_def load_try_def)
  then have c: "execute_workflows w ep [\<lparr>workflow = p, port = q\<rparr>] = [ReadFile p]"
    by simp
  from l have d: "push_workflows w ep [\<lparr>workflow = p, port = q\<rparr>] (evs, ps) = (evs @ [ReadFile p], ps)"
    by simp
  from a b c d show ?thesis by blast
qed

theorem falsy_document_skipped_witness:
  "files zero_world ''fileX'' = Document (JNum 0)
   \<and> JNum 0 \<in> {JBool False, JNum 0, JNull, JStr ''''}
   \<and> executeAllWorkflows (zero_world\<lparr>files := (files zero_world)(''fileX'' := Missing)\<rparr>) =
       executeAllWorkflows zero_world
   \<and> execute_workflows zero_world endpointA [\<lparr>workflow = ''fileX'', port = 8001\<rparr>] =
       [ReadFile ''fileX'']"
  using falsy_document_skipped [of zero_world "''fileX''" "JNum 0" "''endpointA''" endpointA 8001 "[]" "[]"]
  by (simp add: zero_world_def)

section \<open>The watch handle under overlapping configuration changes\<close>

text \<open>
  As long as the turns are sequential the handle behaves: no watcher is closed twice and at
  most one watcher is active.
\<close>

lemma active_watchers_close:
  "active_watchers (s\<lparr>close_calls := close_calls s @ [wt]\<rparr>) =
     filter (\<lambda>i. i \<noteq> wt) (active_watchers s)"
  by (auto simp: active_watchers_def intro: filter_cong)

lemma active_watchers_create:
  "\<forall>i \<in> set (close_calls s). i < created s \<Longrightarrow>
   filter (\<lambda>i. i \<notin> set (close_calls s)) [0..<created s + 1] = active_watchers s @ [created s]"
  by (auto simp: active_watchers_def)

lemma inv_onConfigChanged:
  assumes "lifecycle_inv s" and "in_flight s = 0"
  shows "lifecycle_inv (onConfigChanged s)"
proof (cases "workflowWatcher s")
  case None
  with assms show ?thesis
    by (simp add: lifecycle_inv_def onConfigChanged_def active_watchers_def)
next
  case (Some wt)
  with assms have a: "active_watchers s = [wt]" by (simp add: lifecycle_inv_def)
  then have "wt \<in> set (active_watchers s)" by simp
  then have b: "wt \<notin> set (close_calls s)" and c: "wt < created s"
    by (auto simp: active_watchers_def)
  have d: "active_watchers (s\<lparr>close_calls := close_calls s @ [wt]\<rparr>) = []"
    by (simp add: active_watchers_close a)
  have e: "active_watchers (s\<lparr>close_calls := close_calls s @ [wt], in_flight := 1\<rparr>) =
           active_watchers (s\<lparr>close_calls := close_calls s @ [wt]\<rparr>)"
    by (simp add: active_watchers_def)
  from assms Some b c d e show ?thesis
    by (auto simp add: lifecycle_inv_def onConfigChanged_def Let_def)
qed

lemma inv_pass_completed:
  assumes "lifecycle_inv s"
  shows "lifecycle_inv (pass_completed eps s)"
proof (cases "in_flight s = 0")
  case True
  with assms show ?thesis by (simp add: pass_completed_def)
next
  case False
  with assms have one: "in_flight s = 1" and act: "active_watchers s = []"
    and lt: "\<forall>i \<in> set (close_calls s). i < created s" and d: "distinct (close_calls s)"
    by (auto simp: lifecycle_inv_def)
  show ?thesis
  proof (cases "setupFileWatchers eps")
    case None
    with one act lt d show ?thesis
      by (simp add: pass_completed_def lifecycle_inv_def active_watchers_def)
  next
    case (Some wt)
    from active_watchers_create [OF lt] act
    have "filter (\<lambda>i. i \<notin> set (close_calls s)) [0..<created s + 1] = [created s]" by simp
    with Some one lt d show ?thesis
      by (auto simp add: pass_completed_def lifecycle_inv_def active_watchers_def less_Suc_eq)
  qed
qed

lemma inv_run:
  "lifecycle_inv s \<Longrightarrow> sequential s es \<Longrightarrow> lifecycle_inv (foldl lifecycle_step s es)"
proof (induction es arbitrary: s)
  case Nil
  then show ?case by simp
next
  case (Cons e es)
  show ?case
  proof (cases e)
    case ConfigChanged
    with Cons.prems have "lifecycle_inv (onConfigChanged s)" "sequential (onConfigChanged s) es"
      by (simp_all add: inv_onConfigChanged)
    with Cons.IH ConfigChanged show ?thesis by simp
  next
    case (PassCompleted eps)
    with Cons.prems have "lifecycle_inv (pass_completed eps s)" "sequential (pass_completed eps s) es"
      by (simp_all add: inv_pass_completed)
    with Cons.IH PassCompleted show ?thesis by simp
  qed
qed

lemma inv_initialize: "lifecycle_inv initialize"
  by (simp add: lifecycle_inv_def initialize_def active_watchers_def)

lemma sequential_changes_one_watcher:
  assumes "sequential initialize es"
  shows "length (active_watchers (foldl lifecycle_step initialize es)) \<le> 1"
    and "distinct (close_calls (foldl lifecycle_step initialize es))"
proof -
  from inv_run [OF inv_initialize assms]
  have i: "lifecycle_inv (foldl lifecycle_step initialize es)" .
  then show "length (active_watchers (foldl lifecycle_step initialize es)) \<le> 1"
    by (auto simp: lifecycle_inv_def split: option.splits if_splits)
  from i show "distinct (close_calls (foldl lifecycle_step initialize es))"
    by (simp add: lifecycle_inv_def)
qed

lemma not_sequential: "\<not> sequential initialize overlapping_changes"
  by (simp add: overlapping_changes_def initialize_def pass_completed_A onConfigChanged_def Let_def)

text \<open>
  Claim C3 asks that every configuration change closes the active watcher once before a
  new one is made, so that at most one watcher is active at any time, also when changes
  overlap. On the code this holds for sequential turns only. \<^verbatim>\<open>onConfigChanged\<close> closes
  the watcher the global refers to, and the global is assigned when a pass ends. When a
  second change arrives while the pass of the first is in flight, the first watcher is
  closed a second time, each pass makes a watcher at its end, and the watcher of the
  earlier pass is never closed: two watchers are active.
\<close>

theorem overlapping_changes_leak:
  "close_calls (foldl lifecycle_step initialize overlapping_changes) = [0, 0]
   \<and> active_watchers (foldl lifecycle_step initialize overlapping_changes) = [1, 2]"
  by (simp add: overlapping_changes_def initialize_def onConfigChanged_def pass_completed_A
      Let_def active_watchers_def upt_conv_Cons)

end
